theory Spec2Isabelle
  imports Main "HOL-Library.Word"
begin

section \<open>Data model of RFIDReader.py\<close>

text \<open>
  Values that occur in a raw tag report of the driver: Python's \<open>None\<close>, integers,
  \<open>bytes\<close> objects and \<open>str\<close> objects. A raw report is a dictionary from field names
  to such values.
\<close>

datatype pyval = PNone | PInt int | PBytes "8 word list" | PStr string

type_synonym raw_tag = "string \<rightharpoonup> pyval"

text \<open>The exceptions that the modelled code can meet.\<close>

datatype exn =
    KeyError string
  | AttributeError
  | UnicodeDecodeError
  | EOFError
  | DriverError string

text \<open>
  The dictionary \<open>tag_data\<close> built in \<open>tag_report_cb\<close> (lines 37-42): always the same
  four keys.
\<close>

record tag_data =
  epc :: string
  channel :: pyval
  last_seen :: pyval
  seen_count :: pyval

text \<open>
  \<open>collections.deque(maxlen=...)\<close>: the items, oldest first, and the bound the object
  carries.
\<close>

record 'a deque =
  items :: "'a list"
  maxlen :: nat

text \<open>
  \<open>deque.append\<close>: the item is put at the right end; if the deque is then longer than
  \<open>maxlen\<close>, one item is dropped from the left end.
\<close>

definition deque_append :: "'a deque \<Rightarrow> 'a \<Rightarrow> 'a deque" where
  "deque_append d x =
     (let ys = items d @ [x]
      in d\<lparr>items := (if maxlen d < length ys then tl ys else ys)\<rparr>)"

definition deque_clear :: "'a deque \<Rightarrow> 'a deque" where
  "deque_clear d = d\<lparr>items := []\<rparr>"

text \<open>
  The driver object behind \<open>READER\<close>, as far as the program looks at it: whether
  \<open>is_alive()\<close> answers true, and the value of \<open>llrp.state\<close>.
\<close>

record reader =
  is_alive :: bool
  llrp_state :: nat

datatype driver_call = StartInventory | StopPolitely | Disconnect

text \<open>
  The driver (package sllurp) is not part of the repository. Its behaviour is a parameter
  of the model: a call either raises an exception or returns, leaving the driver object in
  a new state.
\<close>

type_synonym driver = "driver_call \<Rightarrow> reader \<Rightarrow> exn + reader"

text \<open>
  What the program does that can be observed from outside, in the order in which it
  happens: the lines it prints and the calls it makes to the driver.
\<close>

datatype event =
    Print_parse_error exn
  | Print_cleared
  | Print_started
  | Print_stopped
  | Print_reader_state nat
  | Print_not_connected
  | Print_new_tag
  | Print_tag_line string pyval pyval pyval
  | Print_commands
  | Prompt
  | Print_unknown
  | Print_disconnected
  | Call driver_call

text \<open>
  The state of the process: the three globals, the local variable \<open>seen_epcs\<close> of the
  thread running \<open>process_tags_console\<close>, and the events so far.
\<close>

record world =
  READER :: "reader option"
  TAG_QUEUE :: "tag_data list"
  SEEN_TAGS :: "tag_data deque"
  seen_epcs :: "string set"
  log :: "event list"

text \<open>
  The state when the threads start: lines 21-23 and line 84.
\<close>

definition init_world :: "reader option \<Rightarrow> world" where
  "init_world r =
     \<lparr>READER = r, TAG_QUEUE = [], SEEN_TAGS = \<lparr>items = [], maxlen = 100\<rparr>,
      seen_epcs = {}, log = []\<rparr>"

definition emit :: "event list \<Rightarrow> world \<Rightarrow> world" where
  "emit es w = w\<lparr>log := log w @ es\<rparr>"

section \<open>Deduplication: lines 57-59 and 88-93\<close>

text \<open>\<open>clear_tag_data\<close>, lines 57-59.\<close>

definition clear_tag_data :: "world \<Rightarrow> world" where
  "clear_tag_data w = emit [Print_cleared] (w\<lparr>SEEN_TAGS := deque_clear (SEEN_TAGS w)\<rparr>)"

datatype verdict = Accepted | Duplicate

text \<open>
  The body of the loop of \<open>process_tags_console\<close> for a tag taken from the queue, lines
  88-93. The verdict says which branch of line 89 was taken.
\<close>

definition offer :: "tag_data \<Rightarrow> world \<Rightarrow> verdict \<times> world" where
  "offer tag w =
     (if epc tag \<notin> seen_epcs w then
        (Accepted,
         emit [Print_new_tag,
               Print_tag_line (epc tag) (channel tag) (seen_count tag) (last_seen tag)]
           (w\<lparr>seen_epcs := insert (epc tag) (seen_epcs w),
              SEEN_TAGS := deque_append (SEEN_TAGS w) tag\<rparr>))
      else (Duplicate, w))"

text \<open>
  One turn of the loop of \<open>process_tags_console\<close>, lines 86-98: an empty queue is the
  \<open>Empty\<close> exception of line 94. The queue holds only dictionaries built at lines 37-42,
  so the lookups of lines 88 and 93 find their keys.
\<close>

definition process_tags_console_iter :: "world \<Rightarrow> world" where
  "process_tags_console_iter w =
     (case TAG_QUEUE w of
        [] \<Rightarrow> w
      | tag # q \<Rightarrow> snd (offer tag (w\<lparr>TAG_QUEUE := q\<rparr>)))"

text \<open>The loop of line 85 never ends by itself; \<open>n\<close> turns of it.\<close>

fun process_tags_console :: "nat \<Rightarrow> world \<Rightarrow> world" where
  "process_tags_console 0 w = w"
| "process_tags_console (Suc n) w = process_tags_console n (process_tags_console_iter w)"

text \<open>Sequences of offers and clears, with the verdict of each offer.\<close>

datatype op = Offer tag_data | Clear

fun step :: "op \<Rightarrow> world \<Rightarrow> verdict option \<times> world" where
  "step (Offer tag) w = (case offer tag w of (v, w') \<Rightarrow> (Some v, w'))"
| "step Clear w = (None, clear_tag_data w)"

fun run :: "op list \<Rightarrow> world \<Rightarrow> verdict option list \<times> world" where
  "run [] w = ([], w)"
| "run (x # xs) w =
     (case step x w of (v, w') \<Rightarrow> (case run xs w' of (vs, w'') \<Rightarrow> (v # vs, w'')))"

text \<open>
  The records accepted by the offers of a sequence, in order, given the verdicts: all of
  them, and those after the last clear. \<open>acc\<close> holds the records accepted before the
  sequence.
\<close>

fun accepted_ever :: "(op \<times> verdict option) list \<Rightarrow> tag_data list \<Rightarrow> tag_data list" where
  "accepted_ever [] acc = acc"
| "accepted_ever ((Offer tag, Some Accepted) # r) acc = accepted_ever r (acc @ [tag])"
| "accepted_ever (_ # r) acc = accepted_ever r acc"

fun accepted_since_clear :: "(op \<times> verdict option) list \<Rightarrow> tag_data list \<Rightarrow> tag_data list" where
  "accepted_since_clear [] acc = acc"
| "accepted_since_clear ((Clear, _) # r) acc = accepted_since_clear r []"
| "accepted_since_clear ((Offer tag, Some Accepted) # r) acc = accepted_since_clear r (acc @ [tag])"
| "accepted_since_clear (_ # r) acc = accepted_since_clear r acc"

definition history :: "op list \<Rightarrow> world \<Rightarrow> (op \<times> verdict option) list" where
  "history ops w = zip ops (fst (run ops w))"

definition buffer :: "world \<Rightarrow> tag_data list" where
  "buffer w = items (SEEN_TAGS w)"

definition lastn :: "nat \<Rightarrow> 'a list \<Rightarrow> 'a list" where
  "lastn n xs = drop (length xs - n) xs"


definition after :: "op list \<Rightarrow> reader option \<Rightarrow> world" where
  "after ops r = snd (run ops (init_world r))"

definition accepted_now :: "op list \<Rightarrow> reader option \<Rightarrow> tag_data list" where
  "accepted_now ops r = accepted_since_clear (history ops (init_world r)) []"

definition accepted_all :: "op list \<Rightarrow> reader option \<Rightarrow> tag_data list" where
  "accepted_all ops r = accepted_ever (history ops (init_world r)) []"

definition offers :: "tag_data list \<Rightarrow> op list" where
  "offers ts = map Offer ts"

text \<open>Tags with pairwise different EPCs, for concrete runs.\<close>

definition sample_tag :: "nat \<Rightarrow> tag_data" where
  "sample_tag n =
     \<lparr>epc = replicate (Suc n) CHR ''E'', channel = PInt 1, last_seen = PInt (int n),
      seen_count = PInt 1\<rparr>"

definition tag_A :: "int \<Rightarrow> tag_data" where
  "tag_A n = \<lparr>epc = ''A'', channel = PNone, last_seen = PNone, seen_count = PInt n\<rparr>"

definition sample_tags :: "nat \<Rightarrow> tag_data list" where
  "sample_tags n = map sample_tag [0..<n]"

section \<open>The tag report callback: lines 33-45\<close>

text \<open>\<open>tag.get(k)\<close>: \<open>None\<close> for a missing key.\<close>

definition dict_get :: "raw_tag \<Rightarrow> string \<Rightarrow> pyval" where
  "dict_get tag k = (case tag k of None \<Rightarrow> PNone | Some v \<Rightarrow> v)"

text \<open>\<open>tag[k]\<close>: \<open>KeyError\<close> for a missing key.\<close>

definition subscript :: "raw_tag \<Rightarrow> string \<Rightarrow> exn + pyval" where
  "subscript tag k = (case tag k of None \<Rightarrow> Inl (KeyError k) | Some v \<Rightarrow> Inr v)"

text \<open>
  \<open>v.decode("ascii")\<close>: only a \<open>bytes\<close> object has the method, and a byte above 127
  is not ASCII.
\<close>

definition ascii :: "8 word list \<Rightarrow> string" where
  "ascii bs = map (\<lambda>b. char_of (unat b)) bs"

definition decode_ascii :: "pyval \<Rightarrow> exn + string" where
  "decode_ascii v =
     (case v of
        PBytes bs \<Rightarrow> if list_all (\<lambda>b. b < 128) bs then Inr (ascii bs) else Inl UnicodeDecodeError
      | _ \<Rightarrow> Inl AttributeError)"

text \<open>Lines 37-42: the dictionary literal, its first entry evaluated first.\<close>

definition parse_tag :: "raw_tag \<Rightarrow> exn + tag_data" where
  "parse_tag tag =
     (case subscript tag ''EPC'' of
        Inl e \<Rightarrow> Inl e
      | Inr v \<Rightarrow>
          (case decode_ascii v of
             Inl e \<Rightarrow> Inl e
           | Inr s \<Rightarrow>
               Inr \<lparr>epc = s,
                    channel = dict_get tag ''ChannelIndex'',
                    last_seen = dict_get tag ''LastSeenTimestampUTC'',
                    seen_count = dict_get tag ''TagSeenCount''\<rparr>))"

text \<open>
  \<open>tag_report_cb\<close>: the loop over the batch, with the \<open>try\<close> inside it. The argument
  \<open>_reader\<close> is not used.
\<close>

fun tag_report_cb :: "raw_tag list \<Rightarrow> world \<Rightarrow> world" where
  "tag_report_cb [] w = w"
| "tag_report_cb (tag # rest) w =
     tag_report_cb rest
       (case parse_tag tag of
          Inl e \<Rightarrow> emit [Print_parse_error e] w
        | Inr tag_data \<Rightarrow> w\<lparr>TAG_QUEUE := TAG_QUEUE w @ [tag_data]\<rparr>)"

text \<open>
  What a well-formed report is, and the record it stands for, stated without the parser:
  the EPC is there, it is a \<open>bytes\<close> object, and all its bytes are ASCII.
\<close>

definition well_formed :: "raw_tag \<Rightarrow> bool" where
  "well_formed tag =
     (case tag ''EPC'' of Some (PBytes bs) \<Rightarrow> list_all (\<lambda>b. b < 128) bs | _ \<Rightarrow> False)"

definition epc_bytes :: "raw_tag \<Rightarrow> 8 word list" where
  "epc_bytes tag = (case tag ''EPC'' of Some (PBytes bs) \<Rightarrow> bs | _ \<Rightarrow> [])"

definition record_of :: "raw_tag \<Rightarrow> tag_data" where
  "record_of tag =
     \<lparr>epc = ascii (epc_bytes tag),
      channel = dict_get tag ''ChannelIndex'',
      last_seen = dict_get tag ''LastSeenTimestampUTC'',
      seen_count = dict_get tag ''TagSeenCount''\<rparr>"

text \<open>The exception that line 38 raises on a report that is not well-formed.\<close>

definition failure :: "raw_tag \<Rightarrow> exn" where
  "failure tag =
     (case tag ''EPC'' of
        None \<Rightarrow> KeyError ''EPC''
      | Some (PBytes bs) \<Rightarrow> UnicodeDecodeError
      | Some _ \<Rightarrow> AttributeError)"

text \<open>Raw reports for concrete runs.\<close>

definition raw_full :: raw_tag where
  "raw_full = [''EPC'' \<mapsto> PBytes [0x41, 0x31], ''ChannelIndex'' \<mapsto> PInt 3]"

definition raw_not_ascii :: raw_tag where
  "raw_not_ascii = [''EPC'' \<mapsto> PBytes [0x41, 0xFF]]"

definition raw_no_epc :: raw_tag where
  "raw_no_epc = [''ChannelIndex'' \<mapsto> PInt 3]"

definition raw_only_epc :: raw_tag where
  "raw_only_epc = [''EPC'' \<mapsto> PBytes [0x42, 0x32]]"

section \<open>The commands: lines 62-79\<close>

datatype outcome = Returns world | Raises exn world

fun world_of :: "outcome \<Rightarrow> world" where
  "world_of (Returns w) = w"
| "world_of (Raises e w) = w"

fun then_do :: "outcome \<Rightarrow> (world \<Rightarrow> outcome) \<Rightarrow> outcome" where
  "then_do (Returns w) f = f w"
| "then_do (Raises e w) f = Raises e w"

text \<open>The test \<open>READER and READER.is_alive()\<close>.\<close>

definition alive :: "world \<Rightarrow> bool" where
  "alive w = (case READER w of None \<Rightarrow> False | Some r \<Rightarrow> is_alive r)"

text \<open>
  A call \<open>READER.llrp.f()\<close> or \<open>READER.f()\<close>. On \<open>None\<close> the attribute lookup raises.
\<close>

definition call_driver :: "driver \<Rightarrow> driver_call \<Rightarrow> world \<Rightarrow> outcome" where
  "call_driver drv c w =
     (case READER w of
        None \<Rightarrow> Raises AttributeError w
      | Some r \<Rightarrow>
          (case drv c r of
             Inl e \<Rightarrow> Raises e (emit [Call c] w)
           | Inr r' \<Rightarrow> Returns (emit [Call c] (w\<lparr>READER := Some r'\<rparr>))))"

definition start_reading :: "driver \<Rightarrow> world \<Rightarrow> outcome" where
  "start_reading drv w =
     (if alive w then
        then_do (call_driver drv StartInventory (clear_tag_data w))
          (\<lambda>w'. Returns (emit [Print_started] w'))
      else Returns w)"

definition stop_reading :: "driver \<Rightarrow> world \<Rightarrow> outcome" where
  "stop_reading drv w =
     (if alive w then
        then_do (call_driver drv StopPolitely w) (\<lambda>w'. Returns (emit [Print_stopped] w'))
      else Returns w)"

text \<open>
  \<open>print_reader_state\<close>: the printed name of the state is given by the value of
  \<open>llrp.state\<close>.
\<close>

definition print_reader_state :: "world \<Rightarrow> world" where
  "print_reader_state w =
     (case READER w of
        None \<Rightarrow> emit [Print_not_connected] w
      | Some r \<Rightarrow>
          if is_alive r then emit [Print_reader_state (llrp_state r)] w
          else emit [Print_not_connected] w)"

section \<open>The command loop and the shutdown: lines 102-118 and 190-197\<close>

text \<open>
  \<open>str.strip()\<close> and \<open>str.lower()\<close> on code points below 256, which is what a
  \<open>char\<close> holds: the white space of Python among them, and the capital letters.
\<close>

definition is_space :: "char \<Rightarrow> bool" where
  "is_space c =
     (let n = (of_char c :: nat)
      in (9 \<le> n \<and> n \<le> 13) \<or> (28 \<le> n \<and> n \<le> 32) \<or> n = 133 \<or> n = 160)"

definition str_strip :: "string \<Rightarrow> string" where
  "str_strip s = rev (dropWhile is_space (rev (dropWhile is_space s)))"

definition lower_char :: "char \<Rightarrow> char" where
  "lower_char c =
     (let n = (of_char c :: nat)
      in if (65 \<le> n \<and> n \<le> 90) \<or> (192 \<le> n \<and> n \<le> 222 \<and> n \<noteq> 215)
         then char_of (n + 32) else c)"

definition str_lower :: "string \<Rightarrow> string" where
  "str_lower s = map lower_char s"

text \<open>
  \<open>user_interface\<close>: the lines the operator types are the first argument. When they run
  out, \<open>input\<close> raises \<open>EOFError\<close>. No exception is handled in the loop.
\<close>

fun user_interface :: "driver \<Rightarrow> string list \<Rightarrow> world \<Rightarrow> outcome" where
  "user_interface drv [] w = Raises EOFError (emit [Print_commands, Prompt] w)"
| "user_interface drv (line # rest) w =
     (let w1 = emit [Print_commands, Prompt] w;
          cmd = str_lower (str_strip line)
      in if cmd = ''start'' then
           (case start_reading drv w1 of
              Raises e w2 \<Rightarrow> Raises e w2
            | Returns w2 \<Rightarrow> user_interface drv rest w2)
         else if cmd = ''stop'' then
           (case stop_reading drv w1 of
              Raises e w2 \<Rightarrow> Raises e w2
            | Returns w2 \<Rightarrow> user_interface drv rest w2)
         else if cmd = ''clear'' then user_interface drv rest (clear_tag_data w1)
         else if cmd = ''state'' then user_interface drv rest (print_reader_state w1)
         else if cmd = ''exit'' then stop_reading drv w1
         else user_interface drv rest (emit [Print_unknown] w1))"

text \<open>Lines 193-197 of \<open>main\<close>.\<close>

definition graceful_shutdown :: "driver \<Rightarrow> world \<Rightarrow> outcome" where
  "graceful_shutdown drv w =
     (if alive w then
        then_do (call_driver drv StopPolitely w)
          (\<lambda>w1. then_do (call_driver drv Disconnect w1)
             (\<lambda>w2. Returns (emit [Print_disconnected] w2)))
      else Returns w)"

text \<open>Lines 190-197 of \<open>main\<close>: the command loop, then the shutdown.\<close>

definition main_after_connect :: "driver \<Rightarrow> string list \<Rightarrow> world \<Rightarrow> outcome" where
  "main_after_connect drv inputs w =
     then_do (user_interface drv inputs w) (graceful_shutdown drv)"

text \<open>Drivers and a reader for concrete runs.\<close>

definition good_driver :: driver where
  "good_driver c r = Inr r"

definition failing_driver :: driver where
  "failing_driver c r = Inl (DriverError ''connection lost'')"

definition live_reader :: reader where
  "live_reader = \<lparr>is_alive = True, llrp_state = 1\<rparr>"

definition dead_reader :: reader where
  "dead_reader = \<lparr>is_alive = False, llrp_state = 0\<rparr>"


section \<open>The buffer and the set of seen EPCs\<close>


lemma deque_append_lastn:
  assumes "items d = lastn (maxlen d) acc"
  shows "items (deque_append d x) = lastn (maxlen d) (acc @ [x])"
proof (cases "length acc < maxlen d")
  case True
  then show ?thesis using assms by (simp add: deque_append_def lastn_def Let_def)
next
  case False
  define k where "k = length acc - maxlen d"
  have len: "length (drop k acc) = maxlen d" using False by (simp add: k_def)
  have k': "Suc (length acc) - maxlen d = Suc k" using False by (simp add: k_def)
  have kle: "k \<le> length acc" by (simp add: k_def)
  have "tl (drop k acc @ [x]) = drop (Suc k) (acc @ [x])"
  proof (cases "drop k acc")
    case Nil
    then have "k = length acc" using kle by simp
    then show ?thesis by simp
  next
    case (Cons a as)
    then have "k < length acc" by (cases "k < length acc") simp_all
    then show ?thesis using Cons by (simp add: drop_Suc tl_drop drop_tl)
  qed
  then show ?thesis
    using assms len k' by (simp add: deque_append_def lastn_def Let_def k_def [symmetric])
qed

lemma maxlen_deque_append [simp]: "maxlen (deque_append d x) = maxlen d"
  by (simp add: deque_append_def Let_def)

lemma maxlen_deque_clear [simp]: "maxlen (deque_clear d) = maxlen d"
  by (simp add: deque_clear_def)

lemma step_maxlen: "maxlen (SEEN_TAGS (snd (step x w))) = maxlen (SEEN_TAGS w)"
  by (cases x) (auto simp: offer_def clear_tag_data_def emit_def split: prod.splits)

lemma history_Nil [simp]: "history [] w = []"
  by (simp add: history_def)

lemma history_Cons:
  "history (x # xs) w = (x, fst (step x w)) # history xs (snd (step x w))"
  by (simp add: history_def split: prod.splits)

lemma run_Cons_snd: "snd (run (x # xs) w) = snd (run xs (snd (step x w)))"
  by (simp split: prod.splits)

lemma run_buffer:
  "buffer w = lastn (maxlen (SEEN_TAGS w)) acc \<Longrightarrow>
   buffer (snd (run ops w)) =
     lastn (maxlen (SEEN_TAGS w)) (accepted_since_clear (history ops w) acc)"
proof (induction ops arbitrary: w acc)
  case Nil
  then show ?case by simp
next
  case (Cons x xs)
  let ?w = "snd (step x w)"
  show ?case
  proof (cases x)
    case Clear
    have "buffer ?w = lastn (maxlen (SEEN_TAGS ?w)) []"
      using Clear by (simp add: buffer_def clear_tag_data_def emit_def deque_clear_def lastn_def)
    from Cons.IH [OF this] show ?thesis
      using Clear by (simp add: history_Cons run_Cons_snd step_maxlen del: run.simps step.simps)
  next
    case (Offer tag)
    show ?thesis
    proof (cases "epc tag \<in> seen_epcs w")
      case True
      then have s: "step x w = (Some Duplicate, w)" using Offer by (simp add: offer_def)
      from Cons.IH [OF Cons.prems] show ?thesis
        using s Offer by (simp add: history_Cons run_Cons_snd del: run.simps step.simps)
    next
      case False
      then have f: "fst (step x w) = Some Accepted" using Offer by (simp add: offer_def)
      have "buffer ?w = items (deque_append (SEEN_TAGS w) tag)"
        using False Offer by (simp add: offer_def buffer_def emit_def)
      also have "\<dots> = lastn (maxlen (SEEN_TAGS w)) (acc @ [tag])"
        using Cons.prems by (simp add: deque_append_lastn buffer_def)
      finally have "buffer ?w = lastn (maxlen (SEEN_TAGS ?w)) (acc @ [tag])"
        by (simp add: step_maxlen)
      from Cons.IH [OF this] show ?thesis
        using f Offer by (simp add: history_Cons run_Cons_snd step_maxlen del: run.simps step.simps)
    qed
  qed
qed

lemma run_seen:
  "seen_epcs w = epc ` set acc \<Longrightarrow>
   seen_epcs (snd (run ops w)) = epc ` set (accepted_ever (history ops w) acc)"
proof (induction ops arbitrary: w acc)
  case Nil
  then show ?case by simp
next
  case (Cons x xs)
  let ?w = "snd (step x w)"
  show ?case
  proof (cases x)
    case Clear
    have "seen_epcs ?w = epc ` set acc"
      using Clear Cons.prems by (simp add: clear_tag_data_def emit_def)
    from Cons.IH [OF this] show ?thesis
      using Clear by (simp add: history_Cons run_Cons_snd del: run.simps step.simps)
  next
    case (Offer tag)
    show ?thesis
    proof (cases "epc tag \<in> seen_epcs w")
      case True
      then have s: "step x w = (Some Duplicate, w)" using Offer by (simp add: offer_def)
      from Cons.IH [OF Cons.prems] show ?thesis
        using s Offer by (simp add: history_Cons run_Cons_snd del: run.simps step.simps)
    next
      case False
      then have f: "fst (step x w) = Some Accepted" using Offer by (simp add: offer_def)
      have "seen_epcs ?w = epc ` set (acc @ [tag])"
        using False Offer Cons.prems by (simp add: offer_def emit_def)
      from Cons.IH [OF this] show ?thesis
        using f Offer by (simp add: history_Cons run_Cons_snd del: run.simps step.simps)
    qed
  qed
qed


lemma offer_seen: "epc tag \<in> seen_epcs w \<Longrightarrow> offer tag w = (Duplicate, w)"
  by (simp add: offer_def)

lemma offer_new_fst: "epc tag \<notin> seen_epcs w \<Longrightarrow> fst (offer tag w) = Accepted"
  by (simp add: offer_def)

lemma offer_new_seen:
  "epc tag \<notin> seen_epcs w \<Longrightarrow> seen_epcs (snd (offer tag w)) = insert (epc tag) (seen_epcs w)"
  by (simp add: offer_def emit_def)

lemma offer_new_buffer:
  "epc tag \<notin> seen_epcs w \<Longrightarrow>
   buffer (snd (offer tag w)) = items (deque_append (SEEN_TAGS w) tag)"
  by (simp add: offer_def emit_def buffer_def)

lemma step_seen_mono: "e \<in> seen_epcs w \<Longrightarrow> e \<in> seen_epcs (snd (step x w))"
  by (cases x) (auto simp: offer_def clear_tag_data_def emit_def)

lemma run_seen_mono: "e \<in> seen_epcs w \<Longrightarrow> e \<in> seen_epcs (snd (run ops w))"
proof (induction ops arbitrary: w)
  case Nil
  then show ?case by simp
next
  case (Cons x xs)
  from Cons.IH [OF step_seen_mono [OF Cons.prems]] show ?case
    by (simp add: run_Cons_snd del: run.simps step.simps)
qed

lemma step_Offer_snd: "snd (step (Offer t) w) = snd (offer t w)"
  by (simp split: prod.splits)

lemma step_Offer_fst: "fst (step (Offer t) w) = Some (fst (offer t w))"
  by (simp split: prod.splits)

lemma run_maxlen: "maxlen (SEEN_TAGS (snd (run ops w))) = maxlen (SEEN_TAGS w)"
proof (induction ops arbitrary: w)
  case Nil
  then show ?case by simp
next
  case (Cons x xs)
  then show ?case by (simp add: run_Cons_snd step_maxlen del: run.simps step.simps)
qed

lemma run_Cons_fst: "fst (run (x # xs) w) = fst (step x w) # fst (run xs (snd (step x w)))"
  by (simp split: prod.splits)

lemma run_offers_distinct:
  "distinct (map epc ts) \<Longrightarrow> epc ` set ts \<inter> seen_epcs w = {} \<Longrightarrow>
   fst (run (map Offer ts) w) = map (\<lambda>_. Some Accepted) ts"
proof (induction ts arbitrary: w)
  case Nil
  then show ?case by simp
next
  case (Cons t ts)
  have new: "epc t \<notin> seen_epcs w" using Cons.prems(2) by auto
  let ?w = "snd (step (Offer t) w)"
  have "seen_epcs ?w = insert (epc t) (seen_epcs w)"
    using new by (simp add: offer_new_seen step_Offer_snd del: step.simps)
  then have "epc ` set ts \<inter> seen_epcs ?w = {}"
    using Cons.prems by auto
  moreover have "distinct (map epc ts)" using Cons.prems(1) by simp
  ultimately have "fst (run (map Offer ts) ?w) = map (\<lambda>_. Some Accepted) ts"
    by (rule Cons.IH [rotated])
  moreover have "fst (step (Offer t) w) = Some Accepted"
    using new by (simp add: offer_def)
  ultimately show ?case
    by (simp add: run_Cons_fst del: run.simps step.simps)
qed

lemma accepted_since_clear_offers:
  "accepted_since_clear (zip (map Offer ts) (map (\<lambda>_. Some Accepted) ts)) acc = acc @ ts"
  by (induction ts arbitrary: acc) simp_all

lemma accepted_ever_offers:
  "accepted_ever (zip (map Offer ts) (map (\<lambda>_. Some Accepted) ts)) acc = acc @ ts"
  by (induction ts arbitrary: acc) simp_all

lemma set_since_clear_subset:
  "set acc \<subseteq> set acc' \<Longrightarrow> set (accepted_since_clear h acc) \<subseteq> set (accepted_ever h acc')"
proof (induction h acc arbitrary: acc' rule: accepted_since_clear.induct)
  case (3 tag r acc)
  have "set (acc @ [tag]) \<subseteq> set (acc' @ [tag])" using "3.prems" by auto
  from "3.IH" [OF this] show ?case by simp
qed auto

lemma init_buffer: "buffer (init_world r) = lastn (maxlen (SEEN_TAGS (init_world r))) []"
  by (simp add: init_world_def buffer_def lastn_def)

lemma init_maxlen: "maxlen (SEEN_TAGS (init_world r)) = 100"
  by (simp add: init_world_def)

lemma init_seen: "seen_epcs (init_world r) = epc ` set []"
  by (simp add: init_world_def)

lemma length_lastn: "length (lastn n xs) = min n (length xs)"
  by (simp add: lastn_def)

lemma set_lastn: "set (lastn n xs) \<subseteq> set xs"
  by (simp add: lastn_def set_drop_subset)


lemma after_buffer: "buffer (after ops r) = lastn 100 (accepted_now ops r)"
  unfolding after_def accepted_now_def
  using run_buffer [OF init_buffer, where ops = ops and r1 = r] by (simp add: init_maxlen)

lemma after_seen: "seen_epcs (after ops r) = epc ` set (accepted_all ops r)"
  unfolding after_def accepted_all_def
  using run_seen [OF init_seen, where ops = ops and r1 = r] .

lemma after_maxlen: "maxlen (SEEN_TAGS (after ops r)) = 100"
  by (simp add: after_def run_maxlen init_maxlen)

lemma after_distinct_offers:
  assumes "distinct (map epc ts)"
  shows "fst (run (offers ts) (init_world r)) = map (\<lambda>_. Some Accepted) ts"
    and "buffer (after (offers ts) r) = lastn 100 ts"
    and "seen_epcs (after (offers ts) r) = epc ` set ts"
proof -
  have "epc ` set ts \<inter> seen_epcs (init_world r) = {}" by (simp add: init_world_def)
  from run_offers_distinct [OF assms this]
  show v: "fst (run (offers ts) (init_world r)) = map (\<lambda>_. Some Accepted) ts"
    by (simp only: offers_def)
  show "buffer (after (offers ts) r) = lastn 100 ts"
    using v by (simp add: after_buffer accepted_now_def history_def offers_def accepted_since_clear_offers)
  show "seen_epcs (after (offers ts) r) = epc ` set ts"
    using v by (simp add: after_seen accepted_all_def history_def offers_def accepted_ever_offers)
qed

lemma sample_tag_epc_eq: "epc (sample_tag n) = epc (sample_tag m) \<longleftrightarrow> n = m"
proof
  assume "epc (sample_tag n) = epc (sample_tag m)"
  then have "length (epc (sample_tag n)) = length (epc (sample_tag m))" by simp
  then show "n = m" by (simp add: sample_tag_def)
qed simp

lemma sample_tags_distinct: "distinct (map epc (sample_tags n))"
  by (simp add: sample_tags_def distinct_map comp_def inj_on_def sample_tag_epc_eq)

lemma length_sample_tags: "length (sample_tags n) = n"
  by (simp add: sample_tags_def)

lemma sample_tags_Suc: "sample_tags (Suc n) = sample_tags n @ [sample_tag n]"
  by (simp add: sample_tags_def)

lemma set_sample_tags: "set (sample_tags n) = sample_tag ` {0..<n}"
  by (simp add: sample_tags_def)

text \<open>
  Claim C5. After every sequence of offers and clears from the start of the process, the
  buffer is the last 100 of the records accepted since the last clear, in the order of
  their acceptance. So its length is the minimum of 100 and the number of those records,
  it never holds more than 100, and an accepted offer to a full buffer drops the record
  at its head, the earliest accepted one still there, and puts the new one at the end.
\<close>

theorem buffer_capacity_fifo:
  "buffer (after ops r) = lastn 100 (accepted_now ops r) \<and>
   length (buffer (after ops r)) = min 100 (length (accepted_now ops r)) \<and>
   length (buffer (after ops r)) \<le> 100 \<and>
   (epc tag \<notin> seen_epcs (after ops r) \<longrightarrow> length (buffer (after ops r)) = 100 \<longrightarrow>
      fst (offer tag (after ops r)) = Accepted \<and>
      buffer (snd (offer tag (after ops r))) = tl (buffer (after ops r)) @ [tag])"
proof (intro conjI impI)
  show b: "buffer (after ops r) = lastn 100 (accepted_now ops r)" by (rule after_buffer)
  then show l: "length (buffer (after ops r)) = min 100 (length (accepted_now ops r))"
    by (simp add: length_lastn)
  then show "length (buffer (after ops r)) \<le> 100" by simp
next
  assume new: "epc tag \<notin> seen_epcs (after ops r)"
  then show "fst (offer tag (after ops r)) = Accepted" by (rule offer_new_fst)
  assume full: "length (buffer (after ops r)) = 100"
  then obtain a as where "items (SEEN_TAGS (after ops r)) = a # as"
    by (cases "items (SEEN_TAGS (after ops r))") (simp_all add: buffer_def)
  then have "items (deque_append (SEEN_TAGS (after ops r)) tag) = tl (buffer (after ops r)) @ [tag]"
    using full by (simp add: buffer_def deque_append_def Let_def after_maxlen)
  then show "buffer (snd (offer tag (after ops r))) = tl (buffer (after ops r)) @ [tag]"
    by (simp only: offer_new_buffer [OF new])
qed

theorem buffer_capacity_fifo_witness:
  "epc (sample_tag 100) \<notin> seen_epcs (after (offers (sample_tags 100)) None) \<and>
   length (buffer (after (offers (sample_tags 100)) None)) = 100 \<and>
   fst (offer (sample_tag 100) (after (offers (sample_tags 100)) None)) = Accepted \<and>
   buffer (snd (offer (sample_tag 100) (after (offers (sample_tags 100)) None))) =
     tl (sample_tags 100) @ [sample_tag 100]"
proof -
  note d = after_distinct_offers [OF sample_tags_distinct [of 100], of None]
  have b: "buffer (after (offers (sample_tags 100)) None) = sample_tags 100"
    using d(2) by (simp add: lastn_def length_sample_tags)
  have new: "epc (sample_tag 100) \<notin> seen_epcs (after (offers (sample_tags 100)) None)"
    unfolding d(3) by (auto simp add: sample_tag_epc_eq set_sample_tags)
  have full: "length (buffer (after (offers (sample_tags 100)) None)) = 100"
    by (simp add: b length_sample_tags)
  from buffer_capacity_fifo [of "offers (sample_tags 100)" None "sample_tag 100"] new full b
  show ?thesis by simp
qed

text \<open>
  Claim C6, amended. After 101 accepted offers with pairwise different EPCs the first
  record is gone from the buffer, its EPC is still in the set, and an offer of that EPC
  is a duplicate that changes nothing. Nothing makes an EPC eligible again: once it is
  in the set, an offer of it is a duplicate after every further sequence of offers and
  clears.
\<close>

theorem eviction_keeps_seen_epcs:
  "(distinct (map epc ts) \<longrightarrow> length ts = 101 \<longrightarrow>
      fst (run (offers ts) (init_world r)) = replicate 101 (Some Accepted) \<and>
      buffer (after (offers ts) r) = tl ts \<and>
      hd ts \<notin> set (buffer (after (offers ts) r)) \<and>
      epc (hd ts) \<in> seen_epcs (after (offers ts) r) \<and>
      (epc tag = epc (hd ts) \<longrightarrow>
         offer tag (after (offers ts) r) = (Duplicate, after (offers ts) r))) \<and>
   (epc tag \<in> seen_epcs w \<longrightarrow>
      offer tag (snd (run ops w)) = (Duplicate, snd (run ops w)))"
proof (intro conjI impI)
  assume d: "distinct (map epc ts)" and l: "length ts = 101"
  note f = after_distinct_offers [OF d, of r]
  from l obtain t ts' where ts: "ts = t # ts'" by (cases ts) simp_all
  show "fst (run (offers ts) (init_world r)) = replicate 101 (Some Accepted)"
    using f(1) l by (simp add: map_replicate_const)
  show b: "buffer (after (offers ts) r) = tl ts"
    using f(2) l by (simp add: lastn_def drop_Suc)
  have "distinct ts" using d by (rule distinct_map [THEN iffD1, THEN conjunct1])
  then show "hd ts \<notin> set (buffer (after (offers ts) r))"
    unfolding b by (simp add: ts)
  show s: "epc (hd ts) \<in> seen_epcs (after (offers ts) r)"
    unfolding f(3) by (simp add: ts)
  assume "epc tag = epc (hd ts)"
  then show "offer tag (after (offers ts) r) = (Duplicate, after (offers ts) r)"
    using s by (simp add: offer_seen)
next
  assume "epc tag \<in> seen_epcs w"
  then have "epc tag \<in> seen_epcs (snd (run ops w))" by (rule run_seen_mono)
  then show "offer tag (snd (run ops w)) = (Duplicate, snd (run ops w))"
    by (rule offer_seen)
qed

theorem eviction_keeps_seen_epcs_witness:
  "distinct (map epc (sample_tags 101)) \<and> length (sample_tags 101) = 101 \<and>
   buffer (after (offers (sample_tags 101)) None) = tl (sample_tags 101) \<and>
   sample_tag 0 \<notin> set (buffer (after (offers (sample_tags 101)) None)) \<and>
   offer ((sample_tag 0)\<lparr>seen_count := PInt 2\<rparr>) (after (offers (sample_tags 101)) None) =
     (Duplicate, after (offers (sample_tags 101)) None) \<and>
   epc (sample_tag 0) \<in> seen_epcs (after [Offer (sample_tag 0)] None) \<and>
   fst (offer (sample_tag 0) (snd (run [Clear] (after [Offer (sample_tag 0)] None)))) = Duplicate"
proof -
  have h: "hd (sample_tags 101) = sample_tag 0"
    by (simp add: sample_tags_def upt_rec [of 0 101])
  have e: "epc ((sample_tag 0)\<lparr>seen_count := PInt 2\<rparr>) = epc (hd (sample_tags 101))"
    by (simp add: h)
  have s: "epc (sample_tag 0) \<in> seen_epcs (after [Offer (sample_tag 0)] None)"
    by (simp add: after_def offer_def emit_def init_world_def)
  from eviction_keeps_seen_epcs
         [of "sample_tags 101" None "(sample_tag 0)\<lparr>seen_count := PInt 2\<rparr>"
             "after [Offer (sample_tag 0)] None" "[Clear]"]
       eviction_keeps_seen_epcs
         [of "sample_tags 101" None "sample_tag 0"
             "after [Offer (sample_tag 0)] None" "[Clear]"]
       sample_tags_distinct [of 101] length_sample_tags [of 101] h e s
  show ?thesis by simp
qed

section \<open>Clearing\<close>

lemmas dedup_defs =
  after_def offer_def clear_tag_data_def emit_def deque_append_def deque_clear_def
  init_world_def buffer_def accepted_now_def accepted_all_def history_def Let_def

text \<open>
  After a clear the EPC of a record accepted before it is still refused: the claim that
  only a clear makes it eligible again fails.
\<close>

theorem clear_reaccept_counterexample:
  "fst (run [Offer (sample_tag 0), Clear, Offer (sample_tag 0)] (init_world None)) =
     [Some Accepted, None, Some Duplicate]"
  by (simp add: dedup_defs sample_tag_def)

text \<open>
  Claim C1, amended. \<open>clear_tag_data\<close> empties the buffer and leaves the set of seen
  EPCs as it is. In the sequence offer, offer, clear, offer of one EPC the verdicts are
  accepted, duplicate, duplicate; after the clear the buffer is empty and the set still
  holds the EPC, and the buffer is empty after the whole sequence.
\<close>

theorem clear_keeps_seen_epcs:
  "fst (run [Offer (t1\<lparr>epc := a\<rparr>), Offer (t2\<lparr>epc := a\<rparr>), Clear, Offer (t3\<lparr>epc := a\<rparr>)]
         (init_world r)) =
     [Some Accepted, Some Duplicate, None, Some Duplicate] \<and>
   buffer (after [Offer (t1\<lparr>epc := a\<rparr>), Offer (t2\<lparr>epc := a\<rparr>), Clear] r) = [] \<and>
   seen_epcs (after [Offer (t1\<lparr>epc := a\<rparr>), Offer (t2\<lparr>epc := a\<rparr>), Clear] r) = {a} \<and>
   buffer (after [Offer (t1\<lparr>epc := a\<rparr>), Offer (t2\<lparr>epc := a\<rparr>), Clear,
                  Offer (t3\<lparr>epc := a\<rparr>)] r) = []"
  by (simp add: dedup_defs)

text \<open>The scenario as the specification has it does not happen.\<close>

theorem clear_scenario_counterexample:
  "\<not> (fst (run [Offer (tag_A 1), Offer (tag_A 2), Clear, Offer (tag_A 3)] (init_world None)) =
        [Some Accepted, Some Duplicate, None, Some Accepted] \<and>
      buffer (after [Offer (tag_A 1), Offer (tag_A 2), Clear, Offer (tag_A 3)] None) =
        [tag_A 3])"
  by (simp add: dedup_defs tag_A_def)

text \<open>
  Claim C2, amended. After every sequence of offers and clears, an EPC is in the set
  exactly when a record with that EPC has been accepted, hence appended to the buffer,
  since the start of the process: a clear does not take it out. The EPCs of the records
  appended since the last clear, and those of the records in the buffer, are in the set.
\<close>

theorem seen_epcs_since_start:
  "(e \<in> seen_epcs (after ops r) \<longleftrightarrow> e \<in> epc ` set (accepted_all ops r)) \<and>
   (e \<in> epc ` set (accepted_now ops r) \<longrightarrow> e \<in> seen_epcs (after ops r)) \<and>
   (e \<in> epc ` set (buffer (after ops r)) \<longrightarrow> e \<in> seen_epcs (after ops r))"
proof (intro conjI impI)
  show "e \<in> seen_epcs (after ops r) \<longleftrightarrow> e \<in> epc ` set (accepted_all ops r)"
    by (simp only: after_seen)
  have sub: "set (accepted_now ops r) \<subseteq> set (accepted_all ops r)"
    unfolding accepted_now_def accepted_all_def by (rule set_since_clear_subset) simp
  show n: "e \<in> seen_epcs (after ops r)" if "e \<in> epc ` set (accepted_now ops r)"
    using that sub unfolding after_seen by auto
  show "e \<in> seen_epcs (after ops r)" if "e \<in> epc ` set (buffer (after ops r))"
  proof -
    have "set (buffer (after ops r)) \<subseteq> set (accepted_now ops r)"
      unfolding after_buffer by (rule set_lastn)
    with that have "e \<in> epc ` set (accepted_now ops r)" by auto
    then show ?thesis by (rule n)
  qed
qed

theorem seen_epcs_since_start_witness:
  "''A'' \<in> epc ` set (accepted_now [Offer (tag_A 1)] None) \<and>
   ''A'' \<in> epc ` set (buffer (after [Offer (tag_A 1)] None)) \<and>
   ''A'' \<in> seen_epcs (after [Offer (tag_A 1)] None) \<and>
   ''A'' \<in> epc ` set (accepted_all [Offer (tag_A 1)] None)"
proof -
  have a: "''A'' \<in> epc ` set (accepted_now [Offer (tag_A 1)] None)"
    by (simp add: dedup_defs tag_A_def)
  have b: "''A'' \<in> epc ` set (buffer (after [Offer (tag_A 1)] None))"
    by (simp add: dedup_defs tag_A_def)
  from seen_epcs_since_start [of "''A''" "[Offer (tag_A 1)]" None] a b
  show ?thesis by blast
qed

text \<open>
  After an offer and a clear the EPC is in the set although nothing has been appended
  since the clear.
\<close>

theorem seen_epcs_since_clear_counterexample:
  "\<not> (''A'' \<in> seen_epcs (after [Offer (tag_A 1), Clear] None) \<longleftrightarrow>
      ''A'' \<in> epc ` set (accepted_now [Offer (tag_A 1), Clear] None))"
  by (simp add: dedup_defs tag_A_def)

section \<open>An offer and a clear, in either order\<close>







section \<open>The tag report callback\<close>

lemma parse_well_formed: "well_formed tag \<Longrightarrow> parse_tag tag = Inr (record_of tag)"
  by (auto simp: well_formed_def parse_tag_def subscript_def decode_ascii_def record_of_def
      epc_bytes_def split: option.splits pyval.splits)

lemma parse_malformed: "\<not> well_formed tag \<Longrightarrow> parse_tag tag = Inl (failure tag)"
  by (auto simp: well_formed_def parse_tag_def subscript_def decode_ascii_def failure_def
      split: option.splits pyval.splits)

lemma tag_report_cb_queue:
  "TAG_QUEUE (tag_report_cb batch w) = TAG_QUEUE w @ map record_of (filter well_formed batch)"
  by (induction batch arbitrary: w) (simp_all add: parse_well_formed parse_malformed emit_def)

lemma tag_report_cb_log:
  "log (tag_report_cb batch w) =
     log w @ map (\<lambda>tag. Print_parse_error (failure tag)) (filter (\<lambda>tag. \<not> well_formed tag) batch)"
  by (induction batch arbitrary: w) (simp_all add: parse_well_formed parse_malformed emit_def)

lemma tag_report_cb_rest:
  "SEEN_TAGS (tag_report_cb batch w) = SEEN_TAGS w \<and>
   seen_epcs (tag_report_cb batch w) = seen_epcs w \<and>
   READER (tag_report_cb batch w) = READER w"
  by (induction batch arbitrary: w) (simp_all add: emit_def split: sum.splits)

text \<open>
  Claim C9. In \<open>tag_report_cb\<close> a failure concerns one report only. For every batch,
  the queue grows by the records of the well-formed reports of the batch, in their
  order, wherever the other reports stand among them; each report whose EPC is missing,
  is not a \<open>bytes\<close> object or is not ASCII leaves a warning with its exception and
  nothing in the queue. A report that follows a bad one is enqueued as if the bad one
  were not there. The buffer, the set and the reader are not touched.
\<close>

theorem tag_report_cb_isolates_failures:
  "TAG_QUEUE (tag_report_cb batch w) = TAG_QUEUE w @ map record_of (filter well_formed batch) \<and>
   log (tag_report_cb batch w) =
     log w @ map (\<lambda>tag. Print_parse_error (failure tag))
               (filter (\<lambda>tag. \<not> well_formed tag) batch) \<and>
   TAG_QUEUE (tag_report_cb (before @ bad # following) w) =
     TAG_QUEUE (tag_report_cb (before @ (if well_formed bad then [bad] else []) @ following) w) \<and>
   SEEN_TAGS (tag_report_cb batch w) = SEEN_TAGS w \<and>
   seen_epcs (tag_report_cb batch w) = seen_epcs w \<and>
   READER (tag_report_cb batch w) = READER w"
  by (simp add: tag_report_cb_queue tag_report_cb_log tag_report_cb_rest)

theorem tag_report_cb_isolates_failures_witness:
  "TAG_QUEUE (tag_report_cb [raw_not_ascii, raw_full, raw_no_epc, raw_only_epc] (init_world None)) =
     [\<lparr>epc = ''A1'', channel = PInt 3, last_seen = PNone, seen_count = PNone\<rparr>,
      \<lparr>epc = ''B2'', channel = PNone, last_seen = PNone, seen_count = PNone\<rparr>] \<and>
   log (tag_report_cb [raw_not_ascii, raw_full, raw_no_epc, raw_only_epc] (init_world None)) =
     [Print_parse_error UnicodeDecodeError, Print_parse_error (KeyError ''EPC'')]"
proof -
  have wf: "\<not> well_formed raw_not_ascii" "well_formed raw_full" "\<not> well_formed raw_no_epc"
    "well_formed raw_only_epc"
    by (simp_all add: well_formed_def raw_not_ascii_def raw_full_def raw_no_epc_def
        raw_only_epc_def)
  have r: "record_of raw_full =
             \<lparr>epc = ''A1'', channel = PInt 3, last_seen = PNone, seen_count = PNone\<rparr>"
    "record_of raw_only_epc =
             \<lparr>epc = ''B2'', channel = PNone, last_seen = PNone, seen_count = PNone\<rparr>"
    by (simp_all add: record_of_def raw_full_def raw_only_epc_def ascii_def epc_bytes_def
        dict_get_def char_of_def bit_Suc_0_iff)
  have f: "failure raw_not_ascii = UnicodeDecodeError" "failure raw_no_epc = KeyError ''EPC''"
    by (simp_all add: failure_def raw_not_ascii_def raw_no_epc_def)
  from tag_report_cb_isolates_failures
         [of "[raw_not_ascii, raw_full, raw_no_epc, raw_only_epc]" "init_world None"]
  show ?thesis
    by (simp add: wf r f init_world_def del: tag_report_cb.simps)
qed

text \<open>
  Claim C10. A report with a decodable EPC is well-formed whatever else it lacks: it is
  parsed to its record, in which an attribute the report does not have is \<open>None\<close>,
  and the callback enqueues it. When the loop of \<open>process_tags_console\<close> then takes it
  from the queue and its EPC has not been seen, it is accepted: appended to the buffer and
  printed, with \<open>None\<close> for the missing attributes.
\<close>

theorem optional_attributes_not_required:
  assumes "tag ''EPC'' = Some (PBytes bs)" and "list_all (\<lambda>b. b < 128) bs"
  shows "parse_tag tag = Inr (record_of tag) \<and>
         epc (record_of tag) = ascii bs \<and>
         (tag ''ChannelIndex'' = None \<longrightarrow> channel (record_of tag) = PNone) \<and>
         (tag ''LastSeenTimestampUTC'' = None \<longrightarrow> last_seen (record_of tag) = PNone) \<and>
         (tag ''TagSeenCount'' = None \<longrightarrow> seen_count (record_of tag) = PNone) \<and>
         tag_report_cb [tag] w = w\<lparr>TAG_QUEUE := TAG_QUEUE w @ [record_of tag]\<rparr> \<and>
         (TAG_QUEUE w = [] \<longrightarrow> ascii bs \<notin> seen_epcs w \<longrightarrow>
            process_tags_console_iter (tag_report_cb [tag] w) =
              w\<lparr>seen_epcs := insert (ascii bs) (seen_epcs w),
                SEEN_TAGS := deque_append (SEEN_TAGS w) (record_of tag),
                log := log w @
                  [Print_new_tag,
                   Print_tag_line (ascii bs) (channel (record_of tag))
                     (seen_count (record_of tag)) (last_seen (record_of tag))]\<rparr>)"
proof -
  have wf: "well_formed tag" using assms by (simp add: well_formed_def)
  have p: "parse_tag tag = Inr (record_of tag)" using wf by (rule parse_well_formed)
  have e: "epc (record_of tag) = ascii bs" using assms(1) by (simp add: record_of_def epc_bytes_def)
  have cb: "tag_report_cb [tag] w = w\<lparr>TAG_QUEUE := TAG_QUEUE w @ [record_of tag]\<rparr>"
    by (simp add: p)
  have it: "process_tags_console_iter (tag_report_cb [tag] w) =
              w\<lparr>seen_epcs := insert (ascii bs) (seen_epcs w),
                SEEN_TAGS := deque_append (SEEN_TAGS w) (record_of tag),
                log := log w @
                  [Print_new_tag,
                   Print_tag_line (ascii bs) (channel (record_of tag))
                     (seen_count (record_of tag)) (last_seen (record_of tag))]\<rparr>"
    if "TAG_QUEUE w = []" and "ascii bs \<notin> seen_epcs w"
    unfolding cb using that by (simp add: process_tags_console_iter_def offer_def e emit_def)
  show ?thesis
    using p e cb it by (simp add: record_of_def dict_get_def)
qed

theorem optional_attributes_not_required_witness:
  "raw_only_epc ''EPC'' = Some (PBytes [0x42, 0x32]) \<and>
   list_all (\<lambda>b. b < 128) [0x42, 0x32 :: 8 word] \<and>
   raw_only_epc ''ChannelIndex'' = None \<and>
   raw_only_epc ''LastSeenTimestampUTC'' = None \<and>
   raw_only_epc ''TagSeenCount'' = None \<and>
   TAG_QUEUE (init_world None) = [] \<and>
   ascii [0x42, 0x32] \<notin> seen_epcs (init_world None) \<and>
   parse_tag raw_only_epc =
     Inr \<lparr>epc = ''B2'', channel = PNone, last_seen = PNone, seen_count = PNone\<rparr> \<and>
   log (process_tags_console_iter (tag_report_cb [raw_only_epc] (init_world None))) =
     [Print_new_tag, Print_tag_line ''B2'' PNone PNone PNone] \<and>
   buffer (process_tags_console_iter (tag_report_cb [raw_only_epc] (init_world None))) =
     [\<lparr>epc = ''B2'', channel = PNone, last_seen = PNone, seen_count = PNone\<rparr>]"
proof -
  have a: "raw_only_epc ''EPC'' = Some (PBytes [0x42, 0x32])"
    by (simp add: raw_only_epc_def)
  have b: "list_all (\<lambda>b. b < 128) [0x42, 0x32 :: 8 word]" by simp
  have c: "raw_only_epc ''ChannelIndex'' = None \<and> raw_only_epc ''LastSeenTimestampUTC'' = None \<and>
           raw_only_epc ''TagSeenCount'' = None"
    by (simp add: raw_only_epc_def)
  have d: "TAG_QUEUE (init_world None) = [] \<and> ascii [0x42, 0x32] \<notin> seen_epcs (init_world None)"
    by (simp add: init_world_def)
  have r: "record_of raw_only_epc =
             \<lparr>epc = ''B2'', channel = PNone, last_seen = PNone, seen_count = PNone\<rparr>"
    by (simp add: record_of_def raw_only_epc_def ascii_def epc_bytes_def dict_get_def
        char_of_def bit_Suc_0_iff)
  have x: "ascii [0x42, 0x32] = ''B2''"
    by (simp add: ascii_def char_of_def bit_Suc_0_iff)
  note T = optional_attributes_not_required
         [where tag = raw_only_epc and bs = "[0x42, 0x32]" and w = "init_world None", OF a b]
  have p: "parse_tag raw_only_epc = Inr (record_of raw_only_epc)"
    using T by blast
  have it: "process_tags_console_iter (tag_report_cb [raw_only_epc] (init_world None)) =
              (init_world None)
                \<lparr>seen_epcs := insert (ascii [0x42, 0x32]) (seen_epcs (init_world None)),
                 SEEN_TAGS := deque_append (SEEN_TAGS (init_world None)) (record_of raw_only_epc),
                 log := log (init_world None) @
                   [Print_new_tag,
                    Print_tag_line (ascii [0x42, 0x32]) (channel (record_of raw_only_epc))
                      (seen_count (record_of raw_only_epc))
                      (last_seen (record_of raw_only_epc))]\<rparr>"
    using T d by blast
  show ?thesis
    unfolding it p using a c d
    by (simp add: r x buffer_def init_world_def deque_append_def)
qed

section \<open>The commands\<close>

lemma not_alive_iff:
  "\<not> alive w \<longleftrightarrow> READER w = None \<or> (\<exists>r. READER w = Some r \<and> \<not> is_alive r)"
  by (simp add: alive_def split: option.splits)

text \<open>
  Claim C4, amended. When \<open>READER\<close> is \<open>None\<close> or not alive, \<open>start_reading\<close> and
  \<open>stop_reading\<close> return with the state as it was: no call to the driver, the set and
  the buffer unchanged, and nothing printed.
\<close>

theorem start_stop_not_connected:
  assumes "READER w = None \<or> (\<exists>r. READER w = Some r \<and> \<not> is_alive r)"
  shows "start_reading drv w = Returns w \<and> stop_reading drv w = Returns w"
proof -
  have "\<not> alive w" using assms by (simp add: not_alive_iff)
  then show ?thesis by (simp add: start_reading_def stop_reading_def)
qed

theorem start_stop_not_connected_witness:
  "READER (init_world None) = None \<and>
   start_reading good_driver (init_world None) = Returns (init_world None) \<and>
   stop_reading good_driver (init_world None) = Returns (init_world None) \<and>
   READER (init_world (Some dead_reader)) = Some dead_reader \<and> \<not> is_alive dead_reader \<and>
   start_reading good_driver (init_world (Some dead_reader)) =
     Returns (init_world (Some dead_reader)) \<and>
   stop_reading good_driver (init_world (Some dead_reader)) =
     Returns (init_world (Some dead_reader))"
proof -
  have a: "READER (init_world None) = None" by (simp add: init_world_def)
  have b: "READER (init_world (Some dead_reader)) = Some dead_reader \<and> \<not> is_alive dead_reader"
    by (simp add: init_world_def dead_reader_def)
  from start_stop_not_connected [of "init_world None" good_driver]
       start_stop_not_connected [of "init_world (Some dead_reader)" good_driver] a b
  show ?thesis by simp
qed

text \<open>No notice is printed: the log stays empty.\<close>

theorem start_without_session_counterexample:
  "log (world_of (start_reading good_driver (init_world None))) = [] \<and>
   log (world_of (stop_reading good_driver (init_world (Some dead_reader)))) = []"
  by (simp add: start_reading_def stop_reading_def alive_def init_world_def dead_reader_def)

lemma emit_emit: "emit es (emit ds w) = emit (ds @ es) w"
  by (simp add: emit_def)

lemma emit_fields [simp]:
  "READER (emit es w) = READER w" "TAG_QUEUE (emit es w) = TAG_QUEUE w"
  "SEEN_TAGS (emit es w) = SEEN_TAGS w" "seen_epcs (emit es w) = seen_epcs w"
  "log (emit es w) = log w @ es"
  by (simp_all add: emit_def)

lemma alive_emit [simp]: "alive (emit es w) = alive w"
  by (simp add: alive_def)

lemma clear_fields [simp]:
  "READER (clear_tag_data w) = READER w" "TAG_QUEUE (clear_tag_data w) = TAG_QUEUE w"
  "seen_epcs (clear_tag_data w) = seen_epcs w" "items (SEEN_TAGS (clear_tag_data w)) = []"
  "log (clear_tag_data w) = log w @ [Print_cleared]"
  by (simp_all add: clear_tag_data_def deque_clear_def)

lemma alive_clear [simp]: "alive (clear_tag_data w) = alive w"
  by (simp add: alive_def)

lemma alive_Some: "READER w = Some r \<Longrightarrow> alive w = is_alive r"
  by (simp add: alive_def)

lemma call_driver_raises:
  "READER w = Some r \<Longrightarrow> drv c r = Inl e \<Longrightarrow> call_driver drv c w = Raises e (emit [Call c] w)"
  by (simp add: call_driver_def)

lemma call_driver_returns:
  "READER w = Some r \<Longrightarrow> drv c r = Inr r' \<Longrightarrow>
   call_driver drv c w = Returns (emit [Call c] (w\<lparr>READER := Some r'\<rparr>))"
  by (simp add: call_driver_def)

lemma call_driver_log: "\<exists>es. log (world_of (call_driver drv c w)) = log w @ es"
  by (simp add: call_driver_def split: option.splits sum.splits)

lemma start_reading_log: "\<exists>es. log (world_of (start_reading drv w)) = log w @ es"
  by (auto simp: start_reading_def call_driver_def split: option.splits sum.splits)

lemma stop_reading_log: "\<exists>es. log (world_of (stop_reading drv w)) = log w @ es"
  by (auto simp: stop_reading_def call_driver_def split: option.splits sum.splits)

lemma print_reader_state_log: "\<exists>es. log (print_reader_state w) = log w @ es"
  by (simp add: print_reader_state_def split: option.splits)

lemma start_reading_raises:
  assumes "READER w = Some r" and "is_alive r" and "drv StartInventory r = Inl e"
  shows "start_reading drv w = Raises e (emit [Call StartInventory] (clear_tag_data w))"
proof -
  have "alive w" using assms(1,2) by (simp add: alive_Some)
  moreover have "call_driver drv StartInventory (clear_tag_data w) =
                   Raises e (emit [Call StartInventory] (clear_tag_data w))"
    using assms(1,3) by (simp add: call_driver_raises)
  ultimately show ?thesis by (simp add: start_reading_def)
qed

lemma stop_reading_raises:
  assumes "READER w = Some r" and "is_alive r" and "drv StopPolitely r = Inl e"
  shows "stop_reading drv w = Raises e (emit [Call StopPolitely] w)"
proof -
  have "alive w" using assms(1,2) by (simp add: alive_Some)
  moreover have "call_driver drv StopPolitely w = Raises e (emit [Call StopPolitely] w)"
    using assms(1,3) by (simp add: call_driver_raises)
  ultimately show ?thesis by (simp add: stop_reading_def)
qed

lemma stop_reading_returns:
  assumes "READER w = Some r" and "is_alive r" and "drv StopPolitely r = Inr r1"
  shows "stop_reading drv w =
           Returns (emit [Call StopPolitely, Print_stopped] (w\<lparr>READER := Some r1\<rparr>))"
proof -
  have "alive w" using assms(1,2) by (simp add: alive_Some)
  moreover have "call_driver drv StopPolitely w =
                   Returns (emit [Call StopPolitely] (w\<lparr>READER := Some r1\<rparr>))"
    using assms(1,3) by (simp add: call_driver_returns)
  ultimately show ?thesis by (simp add: stop_reading_def emit_emit)
qed

section \<open>The command loop\<close>

lemma user_interface_prompts:
  "\<exists>es. log (world_of (user_interface drv inputs w)) = log w @ [Print_commands, Prompt] @ es"
proof (induction inputs arbitrary: w)
  case Nil
  show ?case by simp
next
  case (Cons line rest)
  let ?w1 = "emit [Print_commands, Prompt] w"
  have step: "\<exists>es. log (world_of (user_interface drv rest w')) = log w @ [Print_commands, Prompt] @ es"
    if "\<exists>ds. log w' = log ?w1 @ ds" for w'
  proof -
    from that obtain ds where "log w' = log ?w1 @ ds" ..
    moreover from Cons.IH [of w'] obtain es
      where "log (world_of (user_interface drv rest w')) = log w' @ [Print_commands, Prompt] @ es" ..
    ultimately show ?thesis by simp
  qed
  have via: "\<exists>es. log (world_of (case out of Raises e w2 \<Rightarrow> Raises e w2
                                   | Returns w2 \<Rightarrow> user_interface drv rest w2)) =
                   log w @ [Print_commands, Prompt] @ es"
    if "\<exists>ds. log (world_of out) = log ?w1 @ ds" for out
    using that step by (cases out) auto
  show ?case
    using via [OF start_reading_log [of drv ?w1]] via [OF stop_reading_log [of drv ?w1]]
      step [of "clear_tag_data ?w1"] step [of "print_reader_state ?w1"]
      step [of "emit [Print_unknown] ?w1"] print_reader_state_log [of ?w1]
      stop_reading_log [of drv ?w1]
    by (simp add: Let_def)
qed


lemma user_interface_start:
  "str_lower (str_strip line) = ''start'' \<Longrightarrow>
   user_interface drv (line # rest) w =
     then_do (start_reading drv (emit [Print_commands, Prompt] w)) (user_interface drv rest)"
  by (cases "start_reading drv (emit [Print_commands, Prompt] w)") (simp_all add: Let_def)

lemma user_interface_stop:
  "str_lower (str_strip line) = ''stop'' \<Longrightarrow>
   user_interface drv (line # rest) w =
     then_do (stop_reading drv (emit [Print_commands, Prompt] w)) (user_interface drv rest)"
  by (cases "stop_reading drv (emit [Print_commands, Prompt] w)") (simp_all add: Let_def)

lemma user_interface_exit:
  "str_lower (str_strip line) = ''exit'' \<Longrightarrow>
   user_interface drv (line # rest) w = stop_reading drv (emit [Print_commands, Prompt] w)"
  by (simp add: Let_def)

lemma user_interface_clear:
  "str_lower (str_strip line) = ''clear'' \<Longrightarrow>
   user_interface drv (line # rest) w =
     user_interface drv rest (clear_tag_data (emit [Print_commands, Prompt] w))"
  by (simp add: Let_def)

lemma user_interface_state:
  "str_lower (str_strip line) = ''state'' \<Longrightarrow>
   user_interface drv (line # rest) w =
     user_interface drv rest (print_reader_state (emit [Print_commands, Prompt] w))"
  by (simp add: Let_def)

lemma user_interface_unknown:
  "str_lower (str_strip line) \<notin> {''start'', ''stop'', ''clear'', ''state'', ''exit''} \<Longrightarrow>
   user_interface drv (line # rest) w =
     user_interface drv rest (emit [Print_commands, Prompt, Print_unknown] w)"
  by (simp add: Let_def emit_emit)

lemma graceful_shutdown_returns:
  assumes "READER w = Some r" and "is_alive r"
    and "drv StopPolitely r = Inr r1" and "drv Disconnect r1 = Inr r2"
  shows "graceful_shutdown drv w =
           Returns (emit [Call StopPolitely, Call Disconnect, Print_disconnected]
                      (w\<lparr>READER := Some r2\<rparr>))"
  using assms by (simp add: graceful_shutdown_def alive_def call_driver_def emit_def)

lemma graceful_shutdown_not_alive: "\<not> alive w \<Longrightarrow> graceful_shutdown drv w = Returns w"
  by (simp add: graceful_shutdown_def)

lemmas command_defs =
  str_lower_def str_strip_def is_space_def lower_char_def char_of_def bit_Suc_0_iff
  start_reading_def stop_reading_def print_reader_state_def graceful_shutdown_def
  main_after_connect_def alive_def call_driver_def good_driver_def live_reader_def
  init_world_def clear_tag_data_def deque_clear_def emit_def

text \<open>
  Claim C3, amended. An exception that the driver raises in \<open>startInventory\<close> or
  \<open>stopPolitely\<close> is not handled: \<open>start_reading\<close> and \<open>stop_reading\<close> raise it,
  the command loop raises it in turn and ends, and so does \<open>main\<close>, without the
  shutdown; no notice of the failure is printed. The set and the buffer are what they
  were just before the failing call: for \<open>start_reading\<close> that is after the clear,
  with the set as before the command and the buffer empty; for \<open>stop_reading\<close> they
  are as before the command.
\<close>

theorem driver_exception_propagates:
  assumes "READER w = Some r" and "is_alive r"
  shows "(drv StartInventory r = Inl e \<longrightarrow>
            start_reading drv w = Raises e (emit [Call StartInventory] (clear_tag_data w)) \<and>
            seen_epcs (world_of (start_reading drv w)) = seen_epcs (clear_tag_data w) \<and>
            SEEN_TAGS (world_of (start_reading drv w)) = SEEN_TAGS (clear_tag_data w) \<and>
            seen_epcs (world_of (start_reading drv w)) = seen_epcs w \<and>
            buffer (world_of (start_reading drv w)) = [] \<and>
            log (world_of (start_reading drv w)) = log w @ [Print_cleared, Call StartInventory] \<and>
            (str_lower (str_strip line) = ''start'' \<longrightarrow>
               user_interface drv (line # rest) w =
                 Raises e (emit [Call StartInventory]
                             (clear_tag_data (emit [Print_commands, Prompt] w))) \<and>
               main_after_connect drv (line # rest) w =
                 Raises e (emit [Call StartInventory]
                             (clear_tag_data (emit [Print_commands, Prompt] w))))) \<and>
         (drv StopPolitely r = Inl e \<longrightarrow>
            stop_reading drv w = Raises e (emit [Call StopPolitely] w) \<and>
            seen_epcs (world_of (stop_reading drv w)) = seen_epcs w \<and>
            SEEN_TAGS (world_of (stop_reading drv w)) = SEEN_TAGS w \<and>
            log (world_of (stop_reading drv w)) = log w @ [Call StopPolitely] \<and>
            (str_lower (str_strip line) = ''stop'' \<or> str_lower (str_strip line) = ''exit'' \<longrightarrow>
               user_interface drv (line # rest) w =
                 Raises e (emit [Print_commands, Prompt, Call StopPolitely] w) \<and>
               main_after_connect drv (line # rest) w =
                 Raises e (emit [Print_commands, Prompt, Call StopPolitely] w)))"
proof (intro conjI impI)
  let ?w1 = "emit [Print_commands, Prompt] w"
  have r1: "READER ?w1 = Some r" using assms(1) by simp
  {
    assume f: "drv StartInventory r = Inl e"
    show s: "start_reading drv w = Raises e (emit [Call StartInventory] (clear_tag_data w))"
      using assms f by (rule start_reading_raises)
    show "seen_epcs (world_of (start_reading drv w)) = seen_epcs (clear_tag_data w)"
      and "SEEN_TAGS (world_of (start_reading drv w)) = SEEN_TAGS (clear_tag_data w)"
      and "seen_epcs (world_of (start_reading drv w)) = seen_epcs w"
      and "buffer (world_of (start_reading drv w)) = []"
      and "log (world_of (start_reading drv w)) = log w @ [Print_cleared, Call StartInventory]"
      by (simp_all add: s buffer_def)
    assume c: "str_lower (str_strip line) = ''start''"
    have s1: "start_reading drv ?w1 = Raises e (emit [Call StartInventory] (clear_tag_data ?w1))"
      using r1 assms(2) f by (rule start_reading_raises)
    show u: "user_interface drv (line # rest) w =
               Raises e (emit [Call StartInventory] (clear_tag_data ?w1))"
      unfolding user_interface_start [OF c] s1 by simp
    show "main_after_connect drv (line # rest) w =
            Raises e (emit [Call StartInventory] (clear_tag_data ?w1))"
      by (simp add: main_after_connect_def u del: user_interface.simps)
  }
  {
    assume f: "drv StopPolitely r = Inl e"
    show s: "stop_reading drv w = Raises e (emit [Call StopPolitely] w)"
      using assms f by (rule stop_reading_raises)
    show "seen_epcs (world_of (stop_reading drv w)) = seen_epcs w"
      and "SEEN_TAGS (world_of (stop_reading drv w)) = SEEN_TAGS w"
      and "log (world_of (stop_reading drv w)) = log w @ [Call StopPolitely]"
      by (simp_all add: s)
    assume c: "str_lower (str_strip line) = ''stop'' \<or> str_lower (str_strip line) = ''exit''"
    have s1: "stop_reading drv ?w1 = Raises e (emit [Call StopPolitely] ?w1)"
      using r1 assms(2) f by (rule stop_reading_raises)
    show u: "user_interface drv (line # rest) w =
               Raises e (emit [Print_commands, Prompt, Call StopPolitely] w)"
      using c
    proof
      assume a: "str_lower (str_strip line) = ''stop''"
      show ?thesis unfolding user_interface_stop [OF a] s1 by (simp add: emit_emit)
    next
      assume a: "str_lower (str_strip line) = ''exit''"
      show ?thesis unfolding user_interface_exit [OF a] s1 by (simp add: emit_emit)
    qed
    show "main_after_connect drv (line # rest) w =
            Raises e (emit [Print_commands, Prompt, Call StopPolitely] w)"
      by (simp add: main_after_connect_def u del: user_interface.simps)
  }
qed

theorem driver_exception_propagates_witness:
  "READER (init_world (Some live_reader)) = Some live_reader \<and> is_alive live_reader \<and>
   failing_driver StartInventory live_reader = Inl (DriverError ''connection lost'') \<and>
   failing_driver StopPolitely live_reader = Inl (DriverError ''connection lost'') \<and>
   str_lower (str_strip ''start'') = ''start'' \<and>
   str_lower (str_strip ''exit'') = ''exit'' \<and>
   user_interface failing_driver [''start'', ''state''] (init_world (Some live_reader)) =
     Raises (DriverError ''connection lost'')
       (emit [Call StartInventory]
          (clear_tag_data (emit [Print_commands, Prompt] (init_world (Some live_reader))))) \<and>
   main_after_connect failing_driver [''exit''] (init_world (Some live_reader)) =
     Raises (DriverError ''connection lost'')
       (emit [Print_commands, Prompt, Call StopPolitely] (init_world (Some live_reader)))"
proof -
  have a: "READER (init_world (Some live_reader)) = Some live_reader"
    by (simp add: init_world_def)
  have b: "is_alive live_reader" by (simp add: live_reader_def)
  have c: "failing_driver StartInventory live_reader = Inl (DriverError ''connection lost'')"
    "failing_driver StopPolitely live_reader = Inl (DriverError ''connection lost'')"
    by (simp_all add: failing_driver_def)
  have d: "str_lower (str_strip ''start'') = ''start''" "str_lower (str_strip ''exit'') = ''exit''"
    by (simp_all add: str_lower_def str_strip_def is_space_def lower_char_def)
  from driver_exception_propagates
         [OF a b, of failing_driver "DriverError ''connection lost''" "''start''" "[''state'']"]
       driver_exception_propagates
         [OF a b, of failing_driver "DriverError ''connection lost''" "''exit''" "[]"]
       a b c d
  show ?thesis by blast
qed

text \<open>
  With a driver that fails, the command \<open>start\<close> ends the loop with the exception: the
  command after it is not read, and the log has no notice of the failure.
\<close>

theorem driver_exception_counterexample:
  "user_interface failing_driver [''start'', ''state''] (init_world (Some live_reader)) =
     Raises (DriverError ''connection lost'')
       ((init_world (Some live_reader))
          \<lparr>log := [Print_commands, Prompt, Print_cleared, Call StartInventory]\<rparr>)"
  by (simp add: str_lower_def str_strip_def is_space_def lower_char_def start_reading_def
      alive_def call_driver_def failing_driver_def live_reader_def init_world_def
      clear_tag_data_def deque_clear_def emit_def)


text \<open>
  Claim C8, amended. With the line stripped and put in lower case, \<open>start\<close>,
  \<open>stop\<close>, \<open>clear\<close> and \<open>state\<close> run \<open>start_reading\<close>, \<open>stop_reading\<close>,
  \<open>clear_tag_data\<close> and \<open>print_reader_state\<close> and the loop goes on; any other line
  but \<open>exit\<close> prints the notice of an unknown command, changes nothing else, and the
  loop prompts again. \<open>exit\<close> runs \<open>stop_reading\<close> and the loop ends there: with a
  live reader the polite stop is the only call to the driver inside the loop. The
  disconnect takes place after the loop has returned, in \<open>main\<close>, after a second
  polite stop, and only if the reader is alive; with no live reader \<open>exit\<close> calls the
  driver not at all.
\<close>

theorem user_interface_dispatch:
  assumes "cmd = str_lower (str_strip line)" and "w1 = emit [Print_commands, Prompt] w"
  shows
    "(cmd = ''start'' \<longrightarrow>
        user_interface drv (line # rest) w =
          then_do (start_reading drv w1) (user_interface drv rest)) \<and>
     (cmd = ''stop'' \<longrightarrow>
        user_interface drv (line # rest) w =
          then_do (stop_reading drv w1) (user_interface drv rest)) \<and>
     (cmd = ''clear'' \<longrightarrow>
        user_interface drv (line # rest) w = user_interface drv rest (clear_tag_data w1)) \<and>
     (cmd = ''state'' \<longrightarrow>
        user_interface drv (line # rest) w = user_interface drv rest (print_reader_state w1)) \<and>
     (cmd = ''exit'' \<longrightarrow>
        user_interface drv (line # rest) w = stop_reading drv w1 \<and>
        main_after_connect drv (line # rest) w =
          then_do (stop_reading drv w1) (graceful_shutdown drv)) \<and>
     (cmd \<notin> {''start'', ''stop'', ''clear'', ''state'', ''exit''} \<longrightarrow>
        user_interface drv (line # rest) w = user_interface drv rest (emit [Print_unknown] w1) \<and>
        READER (emit [Print_unknown] w1) = READER w \<and>
        TAG_QUEUE (emit [Print_unknown] w1) = TAG_QUEUE w \<and>
        SEEN_TAGS (emit [Print_unknown] w1) = SEEN_TAGS w \<and>
        seen_epcs (emit [Print_unknown] w1) = seen_epcs w \<and>
        (\<exists>es. log (world_of (user_interface drv (line # rest) w)) =
               log w @ [Print_commands, Prompt, Print_unknown, Print_commands, Prompt] @ es)) \<and>
     (cmd = ''exit'' \<longrightarrow> READER w = Some r \<longrightarrow> is_alive r \<longrightarrow> drv StopPolitely r = Inr r1 \<longrightarrow>
        user_interface drv (line # rest) w =
          Returns (emit [Print_commands, Prompt, Call StopPolitely, Print_stopped]
                     (w\<lparr>READER := Some r1\<rparr>)) \<and>
        (is_alive r1 \<longrightarrow> drv StopPolitely r1 = Inr r2 \<longrightarrow> drv Disconnect r2 = Inr r3 \<longrightarrow>
           main_after_connect drv (line # rest) w =
             Returns (emit [Print_commands, Prompt, Call StopPolitely, Print_stopped,
                            Call StopPolitely, Call Disconnect, Print_disconnected]
                        (w\<lparr>READER := Some r3\<rparr>)))) \<and>
     (cmd = ''exit'' \<longrightarrow> \<not> alive w \<longrightarrow> main_after_connect drv (line # rest) w = Returns w1)"
proof (intro conjI impI)
  note c = assms(1) [symmetric]
  {
    assume "cmd = ''start''"
    with c have "str_lower (str_strip line) = ''start''" by simp
    then show "user_interface drv (line # rest) w =
                 then_do (start_reading drv w1) (user_interface drv rest)"
      unfolding assms(2) by (rule user_interface_start)
  }
  {
    assume "cmd = ''stop''"
    with c have "str_lower (str_strip line) = ''stop''" by simp
    then show "user_interface drv (line # rest) w =
                 then_do (stop_reading drv w1) (user_interface drv rest)"
      unfolding assms(2) by (rule user_interface_stop)
  }
  {
    assume "cmd = ''clear''"
    with c have "str_lower (str_strip line) = ''clear''" by simp
    then show "user_interface drv (line # rest) w = user_interface drv rest (clear_tag_data w1)"
      unfolding assms(2) by (rule user_interface_clear)
  }
  {
    assume "cmd = ''state''"
    with c have "str_lower (str_strip line) = ''state''" by simp
    then show "user_interface drv (line # rest) w =
                 user_interface drv rest (print_reader_state w1)"
      unfolding assms(2) by (rule user_interface_state)
  }
  {
    assume "cmd \<notin> {''start'', ''stop'', ''clear'', ''state'', ''exit''}"
    with c have "str_lower (str_strip line) \<notin> {''start'', ''stop'', ''clear'', ''state'', ''exit''}"
      by simp
    then have u: "user_interface drv (line # rest) w =
                    user_interface drv rest (emit [Print_commands, Prompt, Print_unknown] w)"
      by (rule user_interface_unknown)
    then show "user_interface drv (line # rest) w =
                 user_interface drv rest (emit [Print_unknown] w1)"
      by (simp only: assms(2) emit_emit append.simps)
    show "READER (emit [Print_unknown] w1) = READER w"
      and "TAG_QUEUE (emit [Print_unknown] w1) = TAG_QUEUE w"
      and "SEEN_TAGS (emit [Print_unknown] w1) = SEEN_TAGS w"
      and "seen_epcs (emit [Print_unknown] w1) = seen_epcs w"
      by (simp_all add: assms(2))
    from user_interface_prompts [of drv rest "emit [Print_commands, Prompt, Print_unknown] w"]
    show "\<exists>es. log (world_of (user_interface drv (line # rest) w)) =
               log w @ [Print_commands, Prompt, Print_unknown, Print_commands, Prompt] @ es"
      unfolding u by simp
  }
  {
    assume "cmd = ''exit''"
    with c have e: "str_lower (str_strip line) = ''exit''" by simp
    show x: "user_interface drv (line # rest) w = stop_reading drv w1"
      unfolding assms(2) using e by (rule user_interface_exit)
    show m: "main_after_connect drv (line # rest) w =
               then_do (stop_reading drv w1) (graceful_shutdown drv)"
      by (simp only: main_after_connect_def x)
    {
      assume r: "READER w = Some r" and a: "is_alive r" and s: "drv StopPolitely r = Inr r1"
      have r1: "READER w1 = Some r" using r by (simp add: assms(2))
      have st: "stop_reading drv w1 =
                  Returns (emit [Print_commands, Prompt, Call StopPolitely, Print_stopped]
                             (w\<lparr>READER := Some r1\<rparr>))"
        unfolding stop_reading_returns [where drv = drv, OF r1 a s]
        by (simp add: assms(2) emit_def)
      show "user_interface drv (line # rest) w =
              Returns (emit [Print_commands, Prompt, Call StopPolitely, Print_stopped]
                         (w\<lparr>READER := Some r1\<rparr>))"
        by (simp only: x st)
      assume a1: "is_alive r1" and s1: "drv StopPolitely r1 = Inr r2"
        and d: "drv Disconnect r2 = Inr r3"
      let ?w2 = "emit [Print_commands, Prompt, Call StopPolitely, Print_stopped]
                   (w\<lparr>READER := Some r1\<rparr>)"
      have r2: "READER ?w2 = Some r1" by simp
      show "main_after_connect drv (line # rest) w =
              Returns (emit [Print_commands, Prompt, Call StopPolitely, Print_stopped,
                             Call StopPolitely, Call Disconnect, Print_disconnected]
                         (w\<lparr>READER := Some r3\<rparr>))"
        unfolding m st then_do.simps graceful_shutdown_returns [where drv = drv, OF r2 a1 s1 d]
        by (simp add: emit_def)
    }
    {
      assume n: "\<not> alive w"
      then have "\<not> alive w1" by (simp add: assms(2))
      then have "stop_reading drv w1 = Returns w1" by (simp add: stop_reading_def)
      moreover have "graceful_shutdown drv w1 = Returns w1"
        using \<open>\<not> alive w1\<close> by (rule graceful_shutdown_not_alive)
      ultimately show "main_after_connect drv (line # rest) w = Returns w1"
        unfolding m by simp
    }
  }
qed


theorem user_interface_dispatch_witness:
  "str_lower (str_strip '' START '') = ''start'' \<and>
   log (world_of (user_interface good_driver ['' START ''] (init_world (Some live_reader)))) =
     [Print_commands, Prompt, Print_cleared, Call StartInventory, Print_started,
      Print_commands, Prompt] \<and>
   str_lower (str_strip ''stop'') = ''stop'' \<and>
   log (world_of (user_interface good_driver [''stop''] (init_world (Some live_reader)))) =
     [Print_commands, Prompt, Call StopPolitely, Print_stopped, Print_commands, Prompt] \<and>
   str_lower (str_strip ''Clear'') = ''clear'' \<and>
   log (world_of (user_interface good_driver [''Clear''] (init_world (Some live_reader)))) =
     [Print_commands, Prompt, Print_cleared, Print_commands, Prompt] \<and>
   str_lower (str_strip ''state'') = ''state'' \<and>
   log (world_of (user_interface good_driver [''state''] (init_world (Some live_reader)))) =
     [Print_commands, Prompt, Print_reader_state 1, Print_commands, Prompt] \<and>
   str_lower (str_strip ''help'') \<notin> {''start'', ''stop'', ''clear'', ''state'', ''exit''} \<and>
   log (world_of (user_interface good_driver [''help''] (init_world (Some live_reader)))) =
     [Print_commands, Prompt, Print_unknown, Print_commands, Prompt] \<and>
   str_lower (str_strip ''exit'') = ''exit'' \<and>
   READER (init_world (Some live_reader)) = Some live_reader \<and> is_alive live_reader \<and>
   good_driver StopPolitely live_reader = Inr live_reader \<and>
   good_driver Disconnect live_reader = Inr live_reader \<and>
   user_interface good_driver [''exit''] (init_world (Some live_reader)) =
     Returns (emit [Print_commands, Prompt, Call StopPolitely, Print_stopped]
                (init_world (Some live_reader))) \<and>
   main_after_connect good_driver [''exit''] (init_world (Some live_reader)) =
     Returns (emit [Print_commands, Prompt, Call StopPolitely, Print_stopped,
                    Call StopPolitely, Call Disconnect, Print_disconnected]
                (init_world (Some live_reader))) \<and>
   \<not> alive (init_world None) \<and>
   main_after_connect good_driver [''exit''] (init_world None) =
     Returns (emit [Print_commands, Prompt] (init_world None))"
proof -
  let ?w = "init_world (Some live_reader)"
  let ?w1 = "emit [Print_commands, Prompt] ?w"
  have c: "str_lower (str_strip '' START '') = ''start''" "str_lower (str_strip ''stop'') = ''stop''"
    "str_lower (str_strip ''Clear'') = ''clear''" "str_lower (str_strip ''state'') = ''state''"
    "str_lower (str_strip ''help'') \<notin> {''start'', ''stop'', ''clear'', ''state'', ''exit''}"
    "str_lower (str_strip ''exit'') = ''exit''"
    by (simp_all add: str_lower_def str_strip_def is_space_def lower_char_def char_of_def
        bit_Suc_0_iff)
  have h: "READER ?w = Some live_reader" "is_alive live_reader"
    "good_driver StopPolitely live_reader = Inr live_reader"
    "good_driver Disconnect live_reader = Inr live_reader" "\<not> alive (init_world None)"
    by (simp_all add: init_world_def live_reader_def good_driver_def alive_def)
  have u: "?w\<lparr>READER := Some live_reader\<rparr> = ?w" by (simp add: init_world_def)
  note T = user_interface_dispatch [OF refl refl]
  have 1: "user_interface good_driver ['' START ''] ?w =
             then_do (start_reading good_driver ?w1) (user_interface good_driver [])"
    using T [of "'' START ''" good_driver "[]" ?w] c by blast
  have 2: "user_interface good_driver [''stop''] ?w =
             then_do (stop_reading good_driver ?w1) (user_interface good_driver [])"
    using T [of "''stop''" good_driver "[]" ?w] c by blast
  have 3: "user_interface good_driver [''Clear''] ?w =
             user_interface good_driver [] (clear_tag_data ?w1)"
    using T [of "''Clear''" good_driver "[]" ?w] c by blast
  have 4: "user_interface good_driver [''state''] ?w =
             user_interface good_driver [] (print_reader_state ?w1)"
    using T [of "''state''" good_driver "[]" ?w] c by blast
  have 5: "user_interface good_driver [''help''] ?w =
             user_interface good_driver [] (emit [Print_unknown] ?w1)"
    using T [of "''help''" good_driver "[]" ?w] c by blast
  have 6: "user_interface good_driver [''exit''] ?w =
             Returns (emit [Print_commands, Prompt, Call StopPolitely, Print_stopped]
                        (?w\<lparr>READER := Some live_reader\<rparr>))"
    using T [of "''exit''" good_driver "[]" ?w live_reader live_reader] c h by blast
  have 7: "main_after_connect good_driver [''exit''] ?w =
             Returns (emit [Print_commands, Prompt, Call StopPolitely, Print_stopped,
                            Call StopPolitely, Call Disconnect, Print_disconnected]
                        (?w\<lparr>READER := Some live_reader\<rparr>))"
    using T [of "''exit''" good_driver "[]" ?w live_reader live_reader live_reader live_reader]
      c h by blast
  have 8: "main_after_connect good_driver [''exit''] (init_world None) =
             Returns (emit [Print_commands, Prompt] (init_world None))"
    using T [of "''exit''" good_driver "[]" "init_world None"] c h by blast
  have l1: "log (world_of (user_interface good_driver ['' START ''] ?w)) =
     [Print_commands, Prompt, Print_cleared, Call StartInventory, Print_started,
      Print_commands, Prompt]"
    unfolding 1 by (simp add: command_defs)
  have l2: "log (world_of (user_interface good_driver [''stop''] ?w)) =
     [Print_commands, Prompt, Call StopPolitely, Print_stopped, Print_commands, Prompt]"
    unfolding 2 by (simp add: command_defs)
  have l3: "log (world_of (user_interface good_driver [''Clear''] ?w)) =
     [Print_commands, Prompt, Print_cleared, Print_commands, Prompt]"
    unfolding 3 by (simp add: command_defs)
  have l4: "log (world_of (user_interface good_driver [''state''] ?w)) =
     [Print_commands, Prompt, Print_reader_state 1, Print_commands, Prompt]"
    unfolding 4 by (simp add: command_defs)
  have l5: "log (world_of (user_interface good_driver [''help''] ?w)) =
     [Print_commands, Prompt, Print_unknown, Print_commands, Prompt]"
    unfolding 5 by (simp add: command_defs)
  show ?thesis
    using c h l1 l2 l3 l4 l5 6 7 8 unfolding u by (intro conjI)
qed

text \<open>
  When the loop has ended on \<open>exit\<close>, the driver has been asked to stop and has not
  been asked to disconnect.
\<close>

theorem exit_disconnect_counterexample:
  "user_interface good_driver [''exit''] (init_world (Some live_reader)) =
     Returns ((init_world (Some live_reader))
                \<lparr>log := [Print_commands, Prompt, Call StopPolitely, Print_stopped]\<rparr>) \<and>
   Call Disconnect \<notin> set [Print_commands, Prompt, Call StopPolitely, Print_stopped]"
  by (simp add: command_defs)

end
